theory Spec2Isabelle
  imports Main
begin

section \<open>Data model of \<^verbatim>\<open>leadDrop/page.tsx\<close>\<close>

text \<open>
  The interface \<^verbatim>\<open>Lead\<close>. The fields \<^verbatim>\<open>_id\<close> and \<^verbatim>\<open>notes\<close> are called
  \<open>lead_id\<close> and \<open>lead_notes\<close> here (an Isabelle name cannot start with an underscore
  or be a keyword). \<^verbatim>\<open>amount\<close> is a JavaScript number that the page only displays; it
  is carried as an integer. \<^verbatim>\<open>status\<close> is a string: the drop handler stores an
  arbitrary \<^verbatim>\<open>toStatus: string\<close> in it.
\<close>

record lead =
  lead_id :: string
  companyName :: string
  customerName :: string
  amount :: int
  productName :: string
  contactNumber :: string
  emailAddress :: string
  address :: string
  lead_notes :: string
  date :: string
  endDate :: string
  status :: string
  isActive :: bool

text \<open>
  \<^verbatim>\<open>groupedLeads: Record<string, Lead[]>\<close>: a key that was never assigned reads as
  \<^verbatim>\<open>undefined\<close>, here \<open>None\<close>. Keys are the status names, which never collide with
  a member of \<^verbatim>\<open>Object.prototype\<close>.
\<close>

type_synonym grouped = "string \<rightharpoonup> lead list"

text \<open>Calling \<^verbatim>\<open>.filter\<close> on \<^verbatim>\<open>undefined\<close> raises a \<^verbatim>\<open>TypeError\<close>.\<close>

datatype js_error = TypeError

datatype console_entry =
    ConsoleWarn string
  | ConsoleError string
  | ConsoleErrorWith string string  \<comment> \<open>label, message of the logged error\<close>

section \<open>Initial load\<close>

text \<open>
  What \<^verbatim>\<open>fetch\<close> followed by \<^verbatim>\<open>response.json()\<close> can deliver to \<^verbatim>\<open>getAllLeads\<close>:
  a body with \<^verbatim>\<open>success\<close> truthy and its \<^verbatim>\<open>data\<close>, a body with \<^verbatim>\<open>success\<close> falsy and
  its \<^verbatim>\<open>message\<close>, or an exception (with its message) thrown by either call.
\<close>

datatype load_response =
    LoadOk "lead list"
  | LoadFail string
  | LoadThrew string

text \<open>The body of the \<^verbatim>\<open>try\<close> block of \<^verbatim>\<open>getAllLeads\<close>: \<open>Inl\<close> is the message of the
  error thrown inside it.\<close>

definition getAllLeads_try :: "load_response \<Rightarrow> string + lead list" where
  "getAllLeads_try r =
     (case r of
        LoadOk ls \<Rightarrow> Inr ls
      | LoadFail msg \<Rightarrow> Inl msg
      | LoadThrew e \<Rightarrow> Inl e)"

text \<open>\<^verbatim>\<open>getAllLeads\<close>: the \<^verbatim>\<open>catch\<close> block logs the caught error and throws a new error
  with a fixed message. The result is the console output and either the message of the
  error that leaves the function or the leads.\<close>

definition getAllLeads :: "load_response \<Rightarrow> console_entry list \<times> (string + lead list)" where
  "getAllLeads r =
     (case getAllLeads_try r of
        Inr ls \<Rightarrow> ([], Inr ls)
      | Inl e \<Rightarrow> ([ConsoleErrorWith ''Error fetching leads:'' e], Inl ''Failed to fetch leads''))"

text \<open>The reducer of \<^verbatim>\<open>groupLeadsByStatus\<close> and the reduction from \<^verbatim>\<open>{}\<close>.\<close>

definition groupStep :: "grouped \<Rightarrow> lead \<Rightarrow> grouped" where
  "groupStep acc l =
     acc(status l \<mapsto> (case acc (status l) of None \<Rightarrow> [] | Some xs \<Rightarrow> xs) @ [l])"

definition groupLeadsByStatus :: "lead list \<Rightarrow> grouped" where
  "groupLeadsByStatus leads = foldl groupStep Map.empty leads"

text \<open>The three \<^verbatim>\<open>useState\<close> cells of \<^verbatim>\<open>App\<close> and their initial values.\<close>

record app_state =
  leads :: "lead list"
  groupedLeads :: grouped
  error :: string

definition initial_state :: app_state where
  "initial_state = \<lparr>leads = [], groupedLeads = Map.empty, error = ''''\<rparr>"

text \<open>\<^verbatim>\<open>fetchLeads\<close>, run once by the effect.\<close>

definition fetchLeads :: "app_state \<Rightarrow> load_response \<Rightarrow> console_entry list \<times> app_state" where
  "fetchLeads st r =
     (case getAllLeads r of
        (out, Inr fetchedLeads) \<Rightarrow>
          (out, st\<lparr>leads := fetchedLeads, groupedLeads := groupLeadsByStatus fetchedLeads\<rparr>)
      | (out, Inl msg) \<Rightarrow> (out, st\<lparr>error := msg\<rparr>))"

section \<open>The drop handler\<close>

text \<open>\<^verbatim>\<open>prev[k] || []\<close>: an array, even an empty one, is truthy.\<close>

definition orEmpty :: "lead list option \<Rightarrow> lead list" where
  "orEmpty v = (case v of None \<Rightarrow> [] | Some xs \<Rightarrow> xs)"

text \<open>The updater passed to \<^verbatim>\<open>setGroupedLeads\<close> right after the same-status check
  (the optimistic move). \<^verbatim>\<open>prev[fromStatus].filter\<close> is not guarded.\<close>

definition applyOptimistic :: "grouped \<Rightarrow> lead \<Rightarrow> string \<Rightarrow> string \<Rightarrow> js_error + grouped" where
  "applyOptimistic prev ld fromStatus toStatus =
     (case prev fromStatus of
        None \<Rightarrow> Inl TypeError
      | Some fls \<Rightarrow>
          (let fromLeads = filter (\<lambda>l. lead_id l \<noteq> lead_id ld) fls;
               toLeads = orEmpty (prev toStatus) @ [ld\<lparr>status := toStatus\<rparr>]
           in Inr (prev(fromStatus \<mapsto> fromLeads, toStatus \<mapsto> toLeads))))"

text \<open>The updater of the \<^verbatim>\<open>!data.success\<close> branch. \<^verbatim>\<open>prev[toStatus].filter\<close> is not
  guarded; the record put back is the dragged \<^verbatim>\<open>lead\<close> itself.\<close>

definition rollbackOnReject :: "grouped \<Rightarrow> lead \<Rightarrow> string \<Rightarrow> string \<Rightarrow> js_error + grouped" where
  "rollbackOnReject prev ld fromStatus toStatus =
     (case prev toStatus of
        None \<Rightarrow> Inl TypeError
      | Some tls \<Rightarrow>
          (let toLeads = filter (\<lambda>l. lead_id l \<noteq> lead_id ld) tls;
               fromLeads = orEmpty (prev fromStatus) @ [ld]
           in Inr (prev(fromStatus \<mapsto> fromLeads, toStatus \<mapsto> toLeads))))"

text \<open>The updater of the \<^verbatim>\<open>catch\<close> block, translated from its own lines.\<close>

definition rollbackOnError :: "grouped \<Rightarrow> lead \<Rightarrow> string \<Rightarrow> string \<Rightarrow> js_error + grouped" where
  "rollbackOnError prev ld fromStatus toStatus =
     (case prev toStatus of
        None \<Rightarrow> Inl TypeError
      | Some tls \<Rightarrow>
          (let toLeads = filter (\<lambda>l. lead_id l \<noteq> lead_id ld) tls;
               fromLeads = orEmpty (prev fromStatus) @ [ld]
           in Inr (prev(fromStatus \<mapsto> fromLeads, toStatus \<mapsto> toLeads))))"

text \<open>
  How the \<^verbatim>\<open>updateLeadStatus\<close> request ends: a body with \<^verbatim>\<open>success\<close> truthy, a body
  with \<^verbatim>\<open>success\<close> falsy, or an exception thrown by \<^verbatim>\<open>fetch\<close> or \<^verbatim>\<open>response.json()\<close>.
\<close>

datatype update_response = Success | Rejected | Threw string

text \<open>What one run of \<^verbatim>\<open>handleDrop\<close> leaves behind: the grouped leads, the console
  output, and the bodies \<^verbatim>\<open>(leadId, status)\<close> of the requests it sent.\<close>

record outcome =
  store :: grouped
  console :: "console_entry list"
  requests :: "(string \<times> string) list"

text \<open>
  \<^verbatim>\<open>handleDrop\<close> for the dragged \<^verbatim>\<open>lead\<close> and \<^verbatim>\<open>fromStatus\<close> read from the drag payload,
  with no other update of the state between its own. An updater that raises makes the
  whole run \<open>Inl\<close>.
\<close>

definition handleDrop ::
  "grouped \<Rightarrow> lead \<Rightarrow> string \<Rightarrow> string \<Rightarrow> update_response \<Rightarrow> js_error + outcome" where
  "handleDrop prev ld fromStatus toStatus resp =
     (if fromStatus = toStatus then
        Inr \<lparr>store = prev, console = [ConsoleWarn ''Cannot drop into the same category.''],
             requests = []\<rparr>
      else
        (case applyOptimistic prev ld fromStatus toStatus of
           Inl e \<Rightarrow> Inl e
         | Inr s1 \<Rightarrow>
             (case resp of
                Success \<Rightarrow>
                  Inr \<lparr>store = s1, console = [], requests = [(lead_id ld, toStatus)]\<rparr>
              | Rejected \<Rightarrow>
                  (case rollbackOnReject s1 ld fromStatus toStatus of
                     Inl e \<Rightarrow> Inl e
                   | Inr s2 \<Rightarrow>
                       Inr \<lparr>store = s2,
                            console = [ConsoleError ''Failed to update lead status on server.''],
                            requests = [(lead_id ld, toStatus)]\<rparr>)
              | Threw err \<Rightarrow>
                  (case rollbackOnError s1 ld fromStatus toStatus of
                     Inl e \<Rightarrow> Inl e
                   | Inr s2 \<Rightarrow>
                       Inr \<lparr>store = s2,
                            console = [ConsoleErrorWith ''Error updating lead status:'' err],
                            requests = [(lead_id ld, toStatus)]\<rparr>))))"

section \<open>Reading the grouped leads\<close>

text \<open>The identifiers held by one status partition; a missing key holds none.\<close>

definition ids_of :: "grouped \<Rightarrow> string \<Rightarrow> string set" where
  "ids_of g s = (case g s of None \<Rightarrow> {} | Some ls \<Rightarrow> lead_id ` set ls)"

definition present :: "grouped \<Rightarrow> string \<Rightarrow> string \<Rightarrow> bool" where
  "present g s i = (i \<in> ids_of g s)"

section \<open>Sequences of updates\<close>

text \<open>
  Every change of \<^verbatim>\<open>groupedLeads\<close> after the load is one of the three updaters of
  \<^verbatim>\<open>handleDrop\<close>, applied by React to the state current at that moment. Several drops
  may be in flight, so the updaters of different drops can interleave. The arguments are
  the \<^verbatim>\<open>lead\<close>, \<^verbatim>\<open>fromStatus\<close> and \<^verbatim>\<open>toStatus\<close> of the drop that queued the updater.
\<close>

datatype mutation =
    Apply lead string string
  | RejectRollback lead string string
  | ErrorRollback lead string string

fun mutate :: "grouped \<Rightarrow> mutation \<Rightarrow> js_error + grouped" where
  "mutate g (Apply ld fromStatus toStatus) = applyOptimistic g ld fromStatus toStatus"
| "mutate g (RejectRollback ld fromStatus toStatus) = rollbackOnReject g ld fromStatus toStatus"
| "mutate g (ErrorRollback ld fromStatus toStatus) = rollbackOnError g ld fromStatus toStatus"

fun run :: "grouped \<Rightarrow> mutation list \<Rightarrow> js_error + grouped" where
  "run g [] = Inr g"
| "run g (m # ms) = (case mutate g m of Inl e \<Rightarrow> Inl e | Inr g' \<Rightarrow> run g' ms)"

text \<open>
  An update finds its record where it removes it from: the optimistic move in
  \<^verbatim>\<open>fromStatus\<close>, a rollback in \<^verbatim>\<open>toStatus\<close>. \<^verbatim>\<open>handleDrop\<close> queues updaters only
  after its same-status check, so the two statuses differ.
\<close>

fun source_present :: "grouped \<Rightarrow> mutation \<Rightarrow> bool" where
  "source_present g (Apply ld fromStatus toStatus) =
     (fromStatus \<noteq> toStatus \<and> present g fromStatus (lead_id ld))"
| "source_present g (RejectRollback ld fromStatus toStatus) =
     (fromStatus \<noteq> toStatus \<and> present g toStatus (lead_id ld))"
| "source_present g (ErrorRollback ld fromStatus toStatus) =
     (fromStatus \<noteq> toStatus \<and> present g toStatus (lead_id ld))"

fun moves_ok :: "grouped \<Rightarrow> mutation list \<Rightarrow> bool" where
  "moves_ok g [] = True"
| "moves_ok g (m # ms) =
     (source_present g m \<and> (case mutate g m of Inl e \<Rightarrow> False | Inr g' \<Rightarrow> moves_ok g' ms))"

text \<open>The invariant of the partitions: no identifier is held by two of them, and the
  identifiers held are exactly those of \<open>I\<close>.\<close>

definition partition_inv :: "string set \<Rightarrow> grouped \<Rightarrow> bool" where
  "partition_inv I g =
     ((\<forall>s t i. present g s i \<and> present g t i \<longrightarrow> s = t) \<and> (\<forall>i. (\<exists>s. present g s i) = (i \<in> I)))"

section \<open>Concrete inputs\<close>

definition lead_L1 :: lead where
  "lead_L1 = \<lparr>lead_id = ''L1'', companyName = ''Acme'', customerName = ''Ann'', amount = 100,
     productName = ''Rope'', contactNumber = ''1'', emailAddress = ''a@x'', address = ''A'',
     lead_notes = '''', date = ''d'', endDate = ''e'', status = ''New'', isActive = True\<rparr>"

definition lead_L2 :: lead where
  "lead_L2 = \<lparr>lead_id = ''L2'', companyName = ''Bolt'', customerName = ''Bob'', amount = 7,
     productName = ''Axe'', contactNumber = ''2'', emailAddress = ''b@x'', address = ''B'',
     lead_notes = '''', date = ''d'', endDate = ''e'', status = ''New'', isActive = True\<rparr>"

definition store_new :: grouped where
  "store_new = [''New'' \<mapsto> [lead_L1, lead_L2]]"

definition store_only_L2 :: grouped where
  "store_only_L2 = [''New'' \<mapsto> [lead_L2]]"

definition store_demo_L1 :: grouped where
  "store_demo_L1 = [''Demo'' \<mapsto> [lead_L1\<lparr>status := ''Demo''\<rparr>]]"

definition store_raced :: grouped where
  "store_raced = [''New'' \<mapsto> [lead_L1], ''Demo'' \<mapsto> [],
                  ''Proposal'' \<mapsto> [lead_L1\<lparr>status := ''Proposal''\<rparr>]]"

definition store_raced_moved :: grouped where
  "store_raced_moved = [''New'' \<mapsto> [], ''Demo'' \<mapsto> [],
     ''Proposal'' \<mapsto> [lead_L1\<lparr>status := ''Proposal''\<rparr>, lead_L1\<lparr>status := ''Proposal''\<rparr>]]"

definition store_raced_back :: grouped where
  "store_raced_back = [''New'' \<mapsto> [lead_L1], ''Demo'' \<mapsto> [], ''Proposal'' \<mapsto> []]"

section \<open>Facts about the updaters\<close>

lemma present_key: "present g s i \<Longrightarrow> \<exists>ls. g s = Some ls"
  by (cases "g s") (simp_all add: present_def ids_of_def)

lemma ids_of_upd_same: "ids_of (g(s \<mapsto> ls)) s = lead_id ` set ls"
  by (simp add: ids_of_def)

lemma ids_of_upd_other: "s \<noteq> k \<Longrightarrow> ids_of (g(k \<mapsto> ls)) s = ids_of g s"
  by (simp add: ids_of_def)

lemma ids_of_upd_filter:
  "g k = Some xs \<Longrightarrow>
     ids_of (h(k \<mapsto> filter (\<lambda>l. lead_id l \<noteq> i) xs)) k = ids_of g k - {i}"
  by (auto simp: ids_of_def)

lemma ids_of_orEmpty: "lead_id ` set (orEmpty (g s)) = ids_of g s"
  by (simp add: ids_of_def orEmpty_def split: option.splits)

lemma ids_of_applyOptimistic:
  assumes "fromStatus \<noteq> toStatus" and "prev fromStatus = Some fls"
  shows "\<exists>g. applyOptimistic prev ld fromStatus toStatus = Inr g
           \<and> (\<forall>s. ids_of g s =
                 (if s = toStatus then insert (lead_id ld) (ids_of prev toStatus)
                  else if s = fromStatus then ids_of prev fromStatus - {lead_id ld}
                  else ids_of prev s))"
proof -
  let ?g = "prev(fromStatus \<mapsto> filter (\<lambda>l. lead_id l \<noteq> lead_id ld) fls,
                 toStatus \<mapsto> orEmpty (prev toStatus) @ [ld\<lparr>status := toStatus\<rparr>])"
  have r: "applyOptimistic prev ld fromStatus toStatus = Inr ?g"
    using assms(2) by (simp add: applyOptimistic_def)
  have t: "ids_of ?g toStatus = insert (lead_id ld) (ids_of prev toStatus)"
    by (simp add: ids_of_upd_same ids_of_orEmpty)
  have f: "ids_of ?g fromStatus = ids_of prev fromStatus - {lead_id ld}"
    using assms ids_of_upd_filter [of prev fromStatus fls prev "lead_id ld"]
    by (simp add: ids_of_upd_other)
  have o: "\<And>s. s \<noteq> toStatus \<Longrightarrow> s \<noteq> fromStatus \<Longrightarrow> ids_of ?g s = ids_of prev s"
    by (simp add: ids_of_upd_other)
  from r t f o show ?thesis by simp
qed

lemma ids_of_rollbackOnReject:
  assumes "fromStatus \<noteq> toStatus" and "prev toStatus = Some tls"
  shows "\<exists>g. rollbackOnReject prev ld fromStatus toStatus = Inr g
           \<and> (\<forall>s. ids_of g s =
                 (if s = fromStatus then insert (lead_id ld) (ids_of prev fromStatus)
                  else if s = toStatus then ids_of prev toStatus - {lead_id ld}
                  else ids_of prev s))"
proof -
  let ?g = "prev(fromStatus \<mapsto> orEmpty (prev fromStatus) @ [ld],
                 toStatus \<mapsto> filter (\<lambda>l. lead_id l \<noteq> lead_id ld) tls)"
  have r: "rollbackOnReject prev ld fromStatus toStatus = Inr ?g"
    using assms(2) by (simp add: rollbackOnReject_def)
  have t: "ids_of ?g toStatus = ids_of prev toStatus - {lead_id ld}"
    using assms(2) by (rule ids_of_upd_filter)
  have f: "ids_of ?g fromStatus = insert (lead_id ld) (ids_of prev fromStatus)"
    using assms(1) by (simp add: ids_of_upd_other ids_of_upd_same ids_of_orEmpty)
  have o: "\<And>s. s \<noteq> toStatus \<Longrightarrow> s \<noteq> fromStatus \<Longrightarrow> ids_of ?g s = ids_of prev s"
    by (simp add: ids_of_upd_other)
  from r t f o assms(1) show ?thesis by simp
qed

lemma rollbackOnError_eq: "rollbackOnError = rollbackOnReject"
  by (intro ext) (simp add: rollbackOnError_def rollbackOnReject_def)

lemma move_ids_inv:
  assumes dis: "\<forall>s t i. i \<in> A s \<and> i \<in> A t \<longrightarrow> s = t"
    and cov: "\<forall>i. (\<exists>s. i \<in> A s) = (i \<in> I)"
    and ne: "src \<noteq> dst"
    and x: "x \<in> A src"
    and B: "\<And>s. B s = (if s = dst then insert x (A dst)
                        else if s = src then A src - {x} else A s)"
  shows "(\<forall>s t i. i \<in> B s \<and> i \<in> B t \<longrightarrow> s = t) \<and> (\<forall>i. (\<exists>s. i \<in> B s) = (i \<in> I))"
proof -
  have only: "\<And>s. x \<in> A s \<Longrightarrow> s = src"
    using dis x by blast
  have mem: "i \<in> B s \<longleftrightarrow> (if i = x then s = dst else i \<in> A s)" for i s
  proof (cases "s = dst")
    case True
    then show ?thesis using ne only by (auto simp: B)
  next
    case False
    then show ?thesis using only by (auto simp: B)
  qed
  have d: "\<forall>s t i. i \<in> B s \<and> i \<in> B t \<longrightarrow> s = t"
    using dis by (auto simp: mem split: if_splits)
  have c: "\<forall>i. (\<exists>s. i \<in> B s) = (i \<in> I)"
  proof
    fix i
    show "(\<exists>s. i \<in> B s) = (i \<in> I)"
    proof (cases "i = x")
      case True
      have "x \<in> I" using cov x by blast
      with True show ?thesis by (simp add: mem)
    next
      case False
      then show ?thesis using cov by (simp add: mem)
    qed
  qed
  from d c show ?thesis by simp
qed

lemma mutate_preserves_inv:
  assumes "partition_inv I g" and "source_present g m"
  shows "\<exists>g'. mutate g m = Inr g' \<and> partition_inv I g'"
proof (cases m)
  case (Apply ld f t)
  with assms(2) have ne: "f \<noteq> t" and pr: "present g f (lead_id ld)" by simp_all
  from pr obtain fls where "g f = Some fls" using present_key by blast
  from ne this ids_of_applyOptimistic [of f t g fls ld] obtain g'
    where r: "applyOptimistic g ld f t = Inr g'"
      and ids: "\<And>s. ids_of g' s =
                 (if s = t then insert (lead_id ld) (ids_of g t)
                  else if s = f then ids_of g f - {lead_id ld}
                  else ids_of g s)"
    by blast
  have "partition_inv I g'"
    using assms(1) pr unfolding partition_inv_def present_def
    by (intro move_ids_inv [where A = "ids_of g" and src = f and dst = t and x = "lead_id ld"])
       (simp_all add: ne ids)
  with r Apply show ?thesis by simp
next
  case (RejectRollback ld f t)
  with assms(2) have ne: "f \<noteq> t" and pr: "present g t (lead_id ld)" by simp_all
  from pr obtain tls where "g t = Some tls" using present_key by blast
  from ne this ids_of_rollbackOnReject [of f t g tls ld] obtain g'
    where r: "rollbackOnReject g ld f t = Inr g'"
      and ids: "\<And>s. ids_of g' s =
                 (if s = f then insert (lead_id ld) (ids_of g f)
                  else if s = t then ids_of g t - {lead_id ld}
                  else ids_of g s)"
    by blast
  have "partition_inv I g'"
    using assms(1) pr unfolding partition_inv_def present_def
    by (intro move_ids_inv [where A = "ids_of g" and src = t and dst = f and x = "lead_id ld"])
       (simp_all add: ne [symmetric] ids)
  with r RejectRollback show ?thesis by simp
next
  case (ErrorRollback ld f t)
  with assms(2) have ne: "f \<noteq> t" and pr: "present g t (lead_id ld)" by simp_all
  from pr obtain tls where "g t = Some tls" using present_key by blast
  from ne this ids_of_rollbackOnReject [of f t g tls ld] obtain g'
    where r: "rollbackOnReject g ld f t = Inr g'"
      and ids: "\<And>s. ids_of g' s =
                 (if s = f then insert (lead_id ld) (ids_of g f)
                  else if s = t then ids_of g t - {lead_id ld}
                  else ids_of g s)"
    by blast
  have "partition_inv I g'"
    using assms(1) pr unfolding partition_inv_def present_def
    by (intro move_ids_inv [where A = "ids_of g" and src = t and dst = f and x = "lead_id ld"])
       (simp_all add: ne [symmetric] ids)
  with r ErrorRollback show ?thesis by (simp add: rollbackOnError_eq)
qed

lemma run_preserves_inv:
  "partition_inv I g \<Longrightarrow> moves_ok g ms \<Longrightarrow> \<exists>g'. run g ms = Inr g' \<and> partition_inv I g'"
proof (induction ms arbitrary: g)
  case Nil
  then show ?case by simp
next
  case (Cons m ms)
  from Cons.prems have sp: "source_present g m" by simp
  from mutate_preserves_inv [OF Cons.prems(1) sp] obtain g1
    where g1: "mutate g m = Inr g1" "partition_inv I g1" by blast
  with Cons.prems(2) have "moves_ok g1 ms" by simp
  from Cons.IH [OF g1(2) this] g1(1) show ?case by simp
qed

lemma moves_ok_take: "moves_ok g ms \<Longrightarrow> moves_ok g (take n ms)"
proof (induction ms arbitrary: g n)
  case Nil
  then show ?case by simp
next
  case (Cons m ms)
  then show ?case by (cases n) (auto split: sum.splits)
qed

lemma groupLeadsByStatus_snoc:
  "groupLeadsByStatus (ls @ [l]) = groupStep (groupLeadsByStatus ls) l"
  by (simp add: groupLeadsByStatus_def)

lemma groupLeadsByStatus_lookup:
  "groupLeadsByStatus ls s =
     (if filter (\<lambda>l. status l = s) ls = [] then None else Some (filter (\<lambda>l. status l = s) ls))"
proof (induction ls arbitrary: s rule: rev_induct)
  case Nil
  then show ?case by (simp add: groupLeadsByStatus_def)
next
  case (snoc l ls)
  then show ?case
    by (simp add: groupLeadsByStatus_snoc groupStep_def)
qed

lemma present_groupLeadsByStatus:
  "present (groupLeadsByStatus ls) s i = (\<exists>l\<in>set ls. status l = s \<and> lead_id l = i)"
  by (auto simp: present_def ids_of_def groupLeadsByStatus_lookup filter_empty_conv)

lemma groupLeadsByStatus_inv:
  assumes "distinct (map lead_id ls)"
  shows "partition_inv (lead_id ` set ls) (groupLeadsByStatus ls)"
proof -
  from assms have inj: "inj_on lead_id (set ls)"
    by (simp add: distinct_map)
  show ?thesis
    unfolding partition_inv_def present_groupLeadsByStatus
    using inj by (auto dest: inj_onD)
qed

section \<open>Optimistic move\<close>

text \<open>
  C1. A drop between two different statuses whose record is held by the source partition:
  the updater queued first succeeds, and in the store it returns (the state every later
  read sees, whatever the request does) the record with its status set to the destination
  is in the destination partition, and no record with that identifier is left in the
  source partition.
\<close>

theorem optimistic_visibility:
  assumes "fromStatus \<noteq> toStatus" and "present prev fromStatus (lead_id ld)"
  shows "\<exists>s1. applyOptimistic prev ld fromStatus toStatus = Inr s1
           \<and> ld\<lparr>status := toStatus\<rparr> \<in> set (orEmpty (s1 toStatus))
           \<and> present s1 toStatus (lead_id ld)
           \<and> \<not> present s1 fromStatus (lead_id ld)"
proof -
  from assms(2) obtain fls where fls: "prev fromStatus = Some fls"
    using present_key by blast
  with assms(1) show ?thesis
    by (auto simp: applyOptimistic_def present_def ids_of_def orEmpty_def)
qed

text \<open>
  C1 at a concrete drop: \<open>L1\<close> dragged from \<open>New\<close> (holding \<open>L1\<close> and \<open>L2\<close>) to
  \<open>Demo\<close>.
\<close>

theorem optimistic_visibility_witness:
  "''New'' \<noteq> ''Demo'' \<and> present store_new ''New'' (lead_id lead_L1)
   \<and> (\<exists>s1. applyOptimistic store_new lead_L1 ''New'' ''Demo'' = Inr s1
           \<and> lead_L1\<lparr>status := ''Demo''\<rparr> \<in> set (orEmpty (s1 ''Demo''))
           \<and> present s1 ''Demo'' (lead_id lead_L1)
           \<and> \<not> present s1 ''New'' (lead_id lead_L1))"
proof -
  have a: "''New'' \<noteq> ''Demo''" by simp
  have b: "present store_new ''New'' (lead_id lead_L1)"
    by (simp add: present_def ids_of_def store_new_def)
  show ?thesis using a b optimistic_visibility [OF a b] by simp
qed

section \<open>Rejected and failed confirmations\<close>

text \<open>
  C2. A drop between two different statuses out of an existing source partition, answered
  with \<^verbatim>\<open>success\<close> false: the run ends with the dragged record itself (so with the status
  field it had) at the end of the source partition, as the only record there with its
  identifier; no record with that identifier in the destination partition; and the
  console holding the server-failure error exactly once, and nothing else.
\<close>

theorem rollback_on_rejection:
  assumes "fromStatus \<noteq> toStatus" and "prev fromStatus = Some fls"
  shows "\<exists>out. handleDrop prev ld fromStatus toStatus Rejected = Inr out
           \<and> store out fromStatus = Some (filter (\<lambda>l. lead_id l \<noteq> lead_id ld) fls @ [ld])
           \<and> present (store out) fromStatus (lead_id ld)
           \<and> \<not> present (store out) toStatus (lead_id ld)
           \<and> console out = [ConsoleError ''Failed to update lead status on server.'']
           \<and> count_list (console out) (ConsoleError ''Failed to update lead status on server.'') = 1"
  using assms
  by (auto simp: handleDrop_def applyOptimistic_def rollbackOnReject_def present_def ids_of_def
      orEmpty_def split: option.splits)

text \<open>
  C2 at a concrete drop: \<open>L1\<close> dragged from \<open>New\<close> to \<open>Demo\<close> and rejected.
\<close>

theorem rollback_on_rejection_witness:
  "''New'' \<noteq> ''Demo'' \<and> store_new ''New'' = Some [lead_L1, lead_L2]
   \<and> (\<exists>out. handleDrop store_new lead_L1 ''New'' ''Demo'' Rejected = Inr out
           \<and> store out ''New'' = Some (filter (\<lambda>l. lead_id l \<noteq> lead_id lead_L1) [lead_L1, lead_L2] @ [lead_L1])
           \<and> present (store out) ''New'' (lead_id lead_L1)
           \<and> \<not> present (store out) ''Demo'' (lead_id lead_L1)
           \<and> console out = [ConsoleError ''Failed to update lead status on server.'']
           \<and> count_list (console out) (ConsoleError ''Failed to update lead status on server.'') = 1)"
proof -
  have a: "''New'' \<noteq> ''Demo''" by simp
  have b: "store_new ''New'' = Some [lead_L1, lead_L2]" by (simp add: store_new_def)
  show ?thesis using a b
      rollback_on_rejection [of "''New''" "''Demo''" store_new "[lead_L1, lead_L2]" lead_L1]
    by simp
qed

text \<open>
  C3. The updater of the \<^verbatim>\<open>catch\<close> block and the updater of the rejection branch are the
  same function of the store. For a drop between two different statuses out of an
  existing source partition, a request that throws leaves the same store (and has sent
  the same request) as a request answered with \<^verbatim>\<open>success\<close> false; the console holds the
  transport error with the caught error instead of the server-failure error.
\<close>

theorem transport_error_same_as_rejection:
  assumes "fromStatus \<noteq> toStatus" and "prev fromStatus = Some fls"
  shows "rollbackOnError = rollbackOnReject
         \<and> (\<exists>rej thr. handleDrop prev ld fromStatus toStatus Rejected = Inr rej
               \<and> handleDrop prev ld fromStatus toStatus (Threw err) = Inr thr
               \<and> store thr = store rej
               \<and> requests thr = requests rej
               \<and> console rej = [ConsoleError ''Failed to update lead status on server.'']
               \<and> console thr = [ConsoleErrorWith ''Error updating lead status:'' err])"
proof -
  have eq: "rollbackOnError = rollbackOnReject"
    by (intro ext) (simp add: rollbackOnError_def rollbackOnReject_def)
  from assms have "\<exists>rej thr. handleDrop prev ld fromStatus toStatus Rejected = Inr rej
               \<and> handleDrop prev ld fromStatus toStatus (Threw err) = Inr thr
               \<and> store thr = store rej
               \<and> requests thr = requests rej
               \<and> console rej = [ConsoleError ''Failed to update lead status on server.'']
               \<and> console thr = [ConsoleErrorWith ''Error updating lead status:'' err]"
    by (simp add: handleDrop_def applyOptimistic_def rollbackOnReject_def eq)
  with eq show ?thesis by simp
qed

text \<open>
  C3 at a concrete drop: \<open>L1\<close> dragged from \<open>New\<close> to \<open>Demo\<close>, the request failing
  with \<open>Failed to fetch\<close>.
\<close>

theorem transport_error_same_as_rejection_witness:
  "''New'' \<noteq> ''Demo'' \<and> store_new ''New'' = Some [lead_L1, lead_L2]
   \<and> rollbackOnError = rollbackOnReject
   \<and> (\<exists>rej thr. handleDrop store_new lead_L1 ''New'' ''Demo'' Rejected = Inr rej
               \<and> handleDrop store_new lead_L1 ''New'' ''Demo'' (Threw ''Failed to fetch'') = Inr thr
               \<and> store thr = store rej
               \<and> requests thr = requests rej
               \<and> console rej = [ConsoleError ''Failed to update lead status on server.'']
               \<and> console thr = [ConsoleErrorWith ''Error updating lead status:'' ''Failed to fetch''])"
proof -
  have a: "''New'' \<noteq> ''Demo''" by simp
  have b: "store_new ''New'' = Some [lead_L1, lead_L2]" by (simp add: store_new_def)
  show ?thesis
    using a b
      transport_error_same_as_rejection [of "''New''" "''Demo''" store_new "[lead_L1, lead_L2]"
        lead_L1 "''Failed to fetch''"]
    by simp
qed

section \<open>Same-status drops\<close>

text \<open>
  C4. A drop whose source status equals its destination status leaves the grouped leads
  exactly as they were, sends no request, and reports the same-category warning (the
  no-op condition), whatever the remote side would have answered.
\<close>

theorem handleDrop_same_status_noop:
  "handleDrop prev ld s s resp =
     Inr \<lparr>store = prev, console = [ConsoleWarn ''Cannot drop into the same category.''],
          requests = []\<rparr>"
  by (simp add: handleDrop_def)

section \<open>Partition disjointness\<close>

text \<open>
  C5, as stated, fails. \<open>L1\<close> is dropped from \<open>New\<close> to \<open>Demo\<close>; before that request
  is answered the card is dropped again, from \<open>Demo\<close> to \<open>Proposal\<close>; then the first
  request is rejected. The rollback of the first drop finds nothing to remove in \<open>Demo\<close>
  and still appends \<open>L1\<close> to \<open>New\<close>: the identifier is now in two partitions.
\<close>

theorem interleaved_rollback_counterexample:
  "run (groupLeadsByStatus [lead_L1])
     [Apply lead_L1 ''New'' ''Demo'',
      Apply (lead_L1\<lparr>status := ''Demo''\<rparr>) ''Demo'' ''Proposal'',
      RejectRollback lead_L1 ''New'' ''Demo''] = Inr store_raced
   \<and> present store_raced ''New'' ''L1''
   \<and> present store_raced ''Proposal'' ''L1''
   \<and> ''New'' \<noteq> ''Proposal''"
proof -
  have "run (groupLeadsByStatus [lead_L1])
     [Apply lead_L1 ''New'' ''Demo'',
      Apply (lead_L1\<lparr>status := ''Demo''\<rparr>) ''Demo'' ''Proposal'',
      RejectRollback lead_L1 ''New'' ''Demo''] = Inr store_raced"
    by (simp add: groupLeadsByStatus_def groupStep_def applyOptimistic_def rollbackOnReject_def
        orEmpty_def store_raced_def lead_L1_def fun_eq_iff)
  moreover have "present store_raced ''New'' ''L1'' \<and> present store_raced ''Proposal'' ''L1''"
    by (simp add: present_def ids_of_def store_raced_def lead_L1_def)
  ultimately show ?thesis by simp
qed

text \<open>
  C5, amended. The fetched leads have pairwise distinct identifiers, and every update of
  the sequence finds its record in the partition it removes it from (no updater checks
  this; it holds when the attempts on one record do not overlap). Then after every prefix
  of the sequence, that is at every observation point, all updates have succeeded and
  each identifier of a fetched lead is in exactly one status partition.
\<close>

theorem disjoint_after_present_moves:
  assumes "distinct (map lead_id fetched)"
    and "moves_ok (groupLeadsByStatus fetched) ms"
  shows "\<exists>g. run (groupLeadsByStatus fetched) (take n ms) = Inr g
           \<and> (\<forall>i\<in>lead_id ` set fetched. \<exists>!s. present g s i)"
proof -
  from assms(2) have "moves_ok (groupLeadsByStatus fetched) (take n ms)"
    by (rule moves_ok_take)
  from run_preserves_inv [OF groupLeadsByStatus_inv [OF assms(1)] this] obtain g
    where g: "run (groupLeadsByStatus fetched) (take n ms) = Inr g"
      "partition_inv (lead_id ` set fetched) g"
    by blast
  from g(2) have "\<forall>i\<in>lead_id ` set fetched. \<exists>!s. present g s i"
    unfolding partition_inv_def by blast
  with g(1) show ?thesis by blast
qed

text \<open>
  C5 amended, at a concrete run: \<open>L1\<close> and \<open>L2\<close> fetched with status \<open>New\<close>, \<open>L1\<close>
  dropped on \<open>Demo\<close> and rolled back after a rejection.
\<close>

theorem disjoint_after_present_moves_witness:
  "distinct (map lead_id [lead_L1, lead_L2])
   \<and> moves_ok (groupLeadsByStatus [lead_L1, lead_L2])
        [Apply lead_L1 ''New'' ''Demo'', RejectRollback lead_L1 ''New'' ''Demo'']
   \<and> (\<exists>g. run (groupLeadsByStatus [lead_L1, lead_L2])
             (take 2 [Apply lead_L1 ''New'' ''Demo'', RejectRollback lead_L1 ''New'' ''Demo'']) = Inr g
           \<and> (\<forall>i\<in>lead_id ` set [lead_L1, lead_L2]. \<exists>!s. present g s i))"
proof -
  have a: "distinct (map lead_id [lead_L1, lead_L2])"
    by (simp add: lead_L1_def lead_L2_def)
  have b: "moves_ok (groupLeadsByStatus [lead_L1, lead_L2])
        [Apply lead_L1 ''New'' ''Demo'', RejectRollback lead_L1 ''New'' ''Demo'']"
    by (simp add: groupLeadsByStatus_def groupStep_def applyOptimistic_def rollbackOnReject_def
        orEmpty_def present_def ids_of_def lead_L1_def lead_L2_def)
  show ?thesis
    using a b disjoint_after_present_moves [OF a b, of 2] by simp
qed

section \<open>Confirmed drops\<close>

text \<open>
  C6. A drop between two different statuses answered with \<^verbatim>\<open>success\<close> true: the store
  at the end of the run is the store returned by the optimistic updater, nothing is
  logged, and the one request sent carries the identifier and the destination status.
\<close>

theorem success_no_further_mutation:
  assumes "fromStatus \<noteq> toStatus" and "applyOptimistic prev ld fromStatus toStatus = Inr s1"
  shows "handleDrop prev ld fromStatus toStatus Success =
           Inr \<lparr>store = s1, console = [], requests = [(lead_id ld, toStatus)]\<rparr>"
  using assms by (simp add: handleDrop_def)

text \<open>
  C6 at a concrete drop: \<open>L1\<close> dragged from \<open>New\<close> to \<open>Demo\<close> and confirmed.
\<close>

theorem success_no_further_mutation_witness:
  "''New'' \<noteq> ''Demo''
   \<and> applyOptimistic store_new lead_L1 ''New'' ''Demo'' =
       Inr [''New'' \<mapsto> [lead_L2], ''Demo'' \<mapsto> [lead_L1\<lparr>status := ''Demo''\<rparr>]]
   \<and> handleDrop store_new lead_L1 ''New'' ''Demo'' Success =
       Inr \<lparr>store = [''New'' \<mapsto> [lead_L2], ''Demo'' \<mapsto> [lead_L1\<lparr>status := ''Demo''\<rparr>]],
            console = [], requests = [(lead_id lead_L1, ''Demo'')]\<rparr>"
proof -
  have a: "''New'' \<noteq> ''Demo''" by simp
  have b: "applyOptimistic store_new lead_L1 ''New'' ''Demo'' =
       Inr [''New'' \<mapsto> [lead_L2], ''Demo'' \<mapsto> [lead_L1\<lparr>status := ''Demo''\<rparr>]]"
    by (simp add: applyOptimistic_def store_new_def orEmpty_def lead_L1_def lead_L2_def)
  show ?thesis using a b success_no_further_mutation [OF a b] by simp
qed

section \<open>Moving a record that is not in the source partition\<close>

text \<open>
  C7, as stated, fails. The partition \<open>New\<close> holds only \<open>L2\<close>; a drop of \<open>L1\<close> from
  \<open>New\<close> to \<open>Demo\<close> is not refused: the updater succeeds, \<open>L1\<close> is appended to
  \<open>Demo\<close>, nothing is reported and the request is sent.
\<close>

theorem absent_record_counterexample:
  "\<not> present store_only_L2 ''New'' (lead_id lead_L1)
   \<and> applyOptimistic store_only_L2 lead_L1 ''New'' ''Demo'' =
       Inr [''New'' \<mapsto> [lead_L2], ''Demo'' \<mapsto> [lead_L1\<lparr>status := ''Demo''\<rparr>]]
   \<and> handleDrop store_only_L2 lead_L1 ''New'' ''Demo'' Success =
       Inr \<lparr>store = [''New'' \<mapsto> [lead_L2], ''Demo'' \<mapsto> [lead_L1\<lparr>status := ''Demo''\<rparr>]],
            console = [], requests = [(''L1'', ''Demo'')]\<rparr>"
  by (simp add: present_def ids_of_def store_only_L2_def handleDrop_def applyOptimistic_def
      orEmpty_def lead_L1_def lead_L2_def)

text \<open>
  C7, amended. No updater looks for the record before moving it. When the source
  partition exists and holds no record with the dragged identifier, the optimistic
  updater succeeds: it leaves the source partition as it is and appends the record, with
  the destination status, to the destination partition; the drop goes on to send the
  request, and on a confirmation nothing is reported.
\<close>

theorem absent_record_moves_anyway:
  assumes "fromStatus \<noteq> toStatus" and "prev fromStatus = Some fls"
    and "\<not> present prev fromStatus (lead_id ld)"
  shows "applyOptimistic prev ld fromStatus toStatus =
           Inr (prev(toStatus \<mapsto> orEmpty (prev toStatus) @ [ld\<lparr>status := toStatus\<rparr>]))
         \<and> handleDrop prev ld fromStatus toStatus Success =
           Inr \<lparr>store = prev(toStatus \<mapsto> orEmpty (prev toStatus) @ [ld\<lparr>status := toStatus\<rparr>]),
                console = [], requests = [(lead_id ld, toStatus)]\<rparr>"
proof -
  from assms(2,3) have "lead_id ld \<notin> lead_id ` set fls"
    by (simp add: present_def ids_of_def)
  then have "\<forall>l\<in>set fls. lead_id l \<noteq> lead_id ld"
    by (metis imageI)
  then have keep: "filter (\<lambda>l. lead_id l \<noteq> lead_id ld) fls = fls"
    by simp
  from assms(2) have same: "prev(fromStatus \<mapsto> fls) = prev"
    by (simp add: fun_upd_idem)
  from assms(2) keep same have
    "applyOptimistic prev ld fromStatus toStatus =
       Inr (prev(toStatus \<mapsto> orEmpty (prev toStatus) @ [ld\<lparr>status := toStatus\<rparr>]))"
    by (simp add: applyOptimistic_def)
  with assms(1) show ?thesis
    by (simp add: handleDrop_def)
qed

text \<open>
  C7 amended, at the concrete drop above.
\<close>

theorem absent_record_moves_anyway_witness:
  "''New'' \<noteq> ''Demo'' \<and> store_only_L2 ''New'' = Some [lead_L2]
   \<and> \<not> present store_only_L2 ''New'' (lead_id lead_L1)
   \<and> applyOptimistic store_only_L2 lead_L1 ''New'' ''Demo'' =
           Inr (store_only_L2(''Demo'' \<mapsto> orEmpty (store_only_L2 ''Demo'') @ [lead_L1\<lparr>status := ''Demo''\<rparr>]))
   \<and> handleDrop store_only_L2 lead_L1 ''New'' ''Demo'' Success =
           Inr \<lparr>store = store_only_L2(''Demo'' \<mapsto> orEmpty (store_only_L2 ''Demo'') @ [lead_L1\<lparr>status := ''Demo''\<rparr>]),
                console = [], requests = [(lead_id lead_L1, ''Demo'')]\<rparr>"
proof -
  have a: "''New'' \<noteq> ''Demo''" by simp
  have b: "store_only_L2 ''New'' = Some [lead_L2]" by (simp add: store_only_L2_def)
  have c: "\<not> present store_only_L2 ''New'' (lead_id lead_L1)"
    by (simp add: present_def ids_of_def store_only_L2_def lead_L1_def lead_L2_def)
  show ?thesis using a b c
      absent_record_moves_anyway [of "''New''" "''Demo''" store_only_L2 "[lead_L2]" lead_L1]
    by simp
qed

section \<open>Moving back\<close>

text \<open>
  C8, as stated, fails. After the interleaved drops of \<open>L1\<close> (dropped on \<open>Demo\<close>, dropped
  again on \<open>Proposal\<close>, first drop rejected) the page holds \<open>L1\<close> in \<open>New\<close> and in
  \<open>Proposal\<close>. Moving the \<open>L1\<close> of \<open>New\<close> to \<open>Proposal\<close> and back, by the rollback or
  by a second drop, removes every record of that identifier from \<open>Proposal\<close>: the
  partition held \<open>L1\<close> before the two moves and holds nothing after them.
\<close>

theorem move_back_loses_duplicate_counterexample:
  "run (groupLeadsByStatus [lead_L1])
     [Apply lead_L1 ''New'' ''Demo'',
      Apply (lead_L1\<lparr>status := ''Demo''\<rparr>) ''Demo'' ''Proposal'',
      RejectRollback lead_L1 ''New'' ''Demo''] = Inr store_raced
   \<and> store_raced ''New'' = Some [lead_L1]
   \<and> applyOptimistic store_raced lead_L1 ''New'' ''Proposal'' = Inr store_raced_moved
   \<and> rollbackOnReject store_raced_moved lead_L1 ''New'' ''Proposal'' = Inr store_raced_back
   \<and> applyOptimistic store_raced_moved (lead_L1\<lparr>status := ''Proposal''\<rparr>) ''Proposal'' ''New''
       = Inr store_raced_back
   \<and> ids_of store_raced ''Proposal'' = {''L1''}
   \<and> ids_of store_raced_back ''Proposal'' = {}"
proof -
  have reach: "run (groupLeadsByStatus [lead_L1])
     [Apply lead_L1 ''New'' ''Demo'',
      Apply (lead_L1\<lparr>status := ''Demo''\<rparr>) ''Demo'' ''Proposal'',
      RejectRollback lead_L1 ''New'' ''Demo''] = Inr store_raced"
    by (simp add: groupLeadsByStatus_def groupStep_def applyOptimistic_def rollbackOnReject_def
        orEmpty_def store_raced_def lead_L1_def fun_eq_iff)
  have held: "store_raced ''New'' = Some [lead_L1]"
    by (simp add: store_raced_def)
  have moved: "applyOptimistic store_raced lead_L1 ''New'' ''Proposal'' = Inr store_raced_moved"
    by (simp add: applyOptimistic_def orEmpty_def store_raced_def store_raced_moved_def
        lead_L1_def fun_eq_iff)
  have rolled: "rollbackOnReject store_raced_moved lead_L1 ''New'' ''Proposal'' = Inr store_raced_back"
    by (simp add: rollbackOnReject_def orEmpty_def store_raced_moved_def store_raced_back_def
        lead_L1_def fun_eq_iff)
  have dragged: "applyOptimistic store_raced_moved (lead_L1\<lparr>status := ''Proposal''\<rparr>)
       ''Proposal'' ''New'' = Inr store_raced_back"
    by (simp add: applyOptimistic_def orEmpty_def store_raced_moved_def store_raced_back_def
        lead_L1_def fun_eq_iff)
  have before: "ids_of store_raced ''Proposal'' = {''L1''}"
    by (simp add: ids_of_def store_raced_def lead_L1_def)
  have after: "ids_of store_raced_back ''Proposal'' = {}"
    by (simp add: ids_of_def store_raced_back_def)
  from reach held moved rolled dragged before after show ?thesis by simp
qed

text \<open>
  C8, amended. A record \<open>ld\<close> held by partition \<open>A\<close>, with no record of its identifier in
  partition \<open>B\<close>. The optimistic move from \<open>A\<close> to \<open>B\<close> succeeds, and so does the move
  back, be it the rollback or the optimistic move of the moved record from \<open>B\<close> to
  \<open>A\<close>. After either, every partition holds the identifiers it held before, every
  partition other than \<open>A\<close> has the records it had, and \<open>A\<close> is its former list without
  the records of that identifier followed by the record: it is put back at the end, not
  at its former position. The rollback puts back \<open>ld\<close> itself, with the status field it
  had; the second drop writes \<open>A\<close> into the status field. When \<open>ld\<close> had status \<open>A\<close>
  the two stores are the same.
\<close>

theorem move_then_move_back:
  assumes "fromStatus \<noteq> toStatus" and "prev fromStatus = Some fls" and "ld \<in> set fls"
    and "\<not> present prev toStatus (lead_id ld)"
  shows "\<exists>s1 s2 s3. applyOptimistic prev ld fromStatus toStatus = Inr s1
           \<and> rollbackOnReject s1 ld fromStatus toStatus = Inr s2
           \<and> applyOptimistic s1 (ld\<lparr>status := toStatus\<rparr>) toStatus fromStatus = Inr s3
           \<and> (\<forall>s. ids_of s2 s = ids_of prev s \<and> ids_of s3 s = ids_of prev s)
           \<and> s2 fromStatus = Some (filter (\<lambda>l. lead_id l \<noteq> lead_id ld) fls @ [ld])
           \<and> s3 fromStatus =
               Some (filter (\<lambda>l. lead_id l \<noteq> lead_id ld) fls @ [ld\<lparr>status := fromStatus\<rparr>])
           \<and> (\<forall>s. s \<noteq> fromStatus \<longrightarrow>
                 orEmpty (s2 s) = orEmpty (prev s) \<and> orEmpty (s3 s) = orEmpty (prev s))
           \<and> (status ld = fromStatus \<longrightarrow> s3 = s2)"
proof -
  let ?keep = "\<lambda>l. lead_id l \<noteq> lead_id ld"
  let ?tl = "orEmpty (prev toStatus) @ [ld\<lparr>status := toStatus\<rparr>]"
  let ?s1 = "prev(fromStatus \<mapsto> filter ?keep fls, toStatus \<mapsto> ?tl)"
  let ?s2 = "?s1(fromStatus \<mapsto> filter ?keep fls @ [ld], toStatus \<mapsto> filter ?keep ?tl)"
  let ?s3 = "?s1(toStatus \<mapsto> filter ?keep ?tl,
                 fromStatus \<mapsto> filter ?keep fls @ [ld\<lparr>status := fromStatus\<rparr>])"
  have notin: "lead_id ld \<notin> lead_id ` set (orEmpty (prev toStatus))"
    using assms(4) by (simp add: present_def ids_of_orEmpty)
  then have "\<forall>l\<in>set (orEmpty (prev toStatus)). lead_id l \<noteq> lead_id ld"
    by (metis imageI)
  then have keep_to: "filter ?keep ?tl = orEmpty (prev toStatus)"
    by simp
  have a: "applyOptimistic prev ld fromStatus toStatus = Inr ?s1"
    using assms(2) by (simp add: applyOptimistic_def)
  have b: "rollbackOnReject ?s1 ld fromStatus toStatus = Inr ?s2"
    using assms(1) by (simp add: rollbackOnReject_def orEmpty_def)
  have c: "applyOptimistic ?s1 (ld\<lparr>status := toStatus\<rparr>) toStatus fromStatus = Inr ?s3"
    using assms(1) by (simp add: applyOptimistic_def orEmpty_def)
  have from2: "?s2 fromStatus = Some (filter ?keep fls @ [ld])"
    using assms(1) by simp
  have from3: "?s3 fromStatus = Some (filter ?keep fls @ [ld\<lparr>status := fromStatus\<rparr>])"
    by simp
  have to2: "?s2 toStatus = Some (orEmpty (prev toStatus))"
    using keep_to by simp
  have to3: "?s3 toStatus = Some (orEmpty (prev toStatus))"
    using keep_to assms(1) by simp
  have content: "\<forall>s. s \<noteq> fromStatus \<longrightarrow>
      orEmpty (?s2 s) = orEmpty (prev s) \<and> orEmpty (?s3 s) = orEmpty (prev s)"
  proof (intro allI impI)
    fix s assume ne: "s \<noteq> fromStatus"
    show "orEmpty (?s2 s) = orEmpty (prev s) \<and> orEmpty (?s3 s) = orEmpty (prev s)"
    proof (cases "s = toStatus")
      case True
      with to2 to3 show ?thesis by (simp add: orEmpty_def)
    next
      case False
      with ne show ?thesis by simp
    qed
  qed
  have img2: "lead_id ` set (filter ?keep fls @ [ld]) = lead_id ` set fls"
    using assms(3) by auto
  have img3: "lead_id ` set (filter ?keep fls @ [ld\<lparr>status := fromStatus\<rparr>]) = lead_id ` set fls"
    using assms(3) by auto
  have idsfrom: "ids_of ?s2 fromStatus = ids_of prev fromStatus
      \<and> ids_of ?s3 fromStatus = ids_of prev fromStatus"
    using from2 from3 img2 img3 assms(2) by (simp add: ids_of_def)
  have ids: "\<forall>s. ids_of ?s2 s = ids_of prev s \<and> ids_of ?s3 s = ids_of prev s"
  proof
    fix s
    show "ids_of ?s2 s = ids_of prev s \<and> ids_of ?s3 s = ids_of prev s"
    proof (cases "s = fromStatus")
      case True
      with idsfrom show ?thesis by simp
    next
      case False
      with content have "orEmpty (?s2 s) = orEmpty (prev s)" "orEmpty (?s3 s) = orEmpty (prev s)"
        by simp_all
      then show ?thesis by (metis ids_of_orEmpty)
    qed
  qed
  have same: "status ld = fromStatus \<longrightarrow> ?s3 = ?s2"
  proof
    assume st: "status ld = fromStatus"
    then have "ld\<lparr>status := fromStatus\<rparr> = ld" by simp
    with assms(1) show "?s3 = ?s2" by (simp add: fun_eq_iff)
  qed
  from a b c ids from2 from3 content same show ?thesis by blast
qed

text \<open>
  C8 amended, at a concrete store: \<open>New\<close> holds \<open>L1\<close>, \<open>L2\<close> and \<open>Demo\<close> is missing;
  after \<open>L1\<close> went to \<open>Demo\<close> and back, \<open>New\<close> holds \<open>L2\<close>, \<open>L1\<close>.
\<close>

theorem move_then_move_back_witness:
  "''New'' \<noteq> ''Demo'' \<and> store_new ''New'' = Some [lead_L1, lead_L2]
   \<and> lead_L1 \<in> set [lead_L1, lead_L2]
   \<and> \<not> present store_new ''Demo'' (lead_id lead_L1)
   \<and> status lead_L1 = ''New''
   \<and> (\<exists>s1 s2 s3. applyOptimistic store_new lead_L1 ''New'' ''Demo'' = Inr s1
           \<and> rollbackOnReject s1 lead_L1 ''New'' ''Demo'' = Inr s2
           \<and> applyOptimistic s1 (lead_L1\<lparr>status := ''Demo''\<rparr>) ''Demo'' ''New'' = Inr s3
           \<and> (\<forall>s. ids_of s2 s = ids_of store_new s \<and> ids_of s3 s = ids_of store_new s)
           \<and> s2 ''New'' = Some [lead_L2, lead_L1]
           \<and> s3 ''New'' = Some [lead_L2, lead_L1\<lparr>status := ''New''\<rparr>]
           \<and> (\<forall>s. s \<noteq> ''New'' \<longrightarrow>
                 orEmpty (s2 s) = orEmpty (store_new s) \<and> orEmpty (s3 s) = orEmpty (store_new s))
           \<and> s3 = s2)"
proof -
  have a: "''New'' \<noteq> ''Demo''" by simp
  have b: "store_new ''New'' = Some [lead_L1, lead_L2]" by (simp add: store_new_def)
  have c: "lead_L1 \<in> set [lead_L1, lead_L2]" by simp
  have d: "status lead_L1 = ''New''" by (simp add: lead_L1_def)
  have e: "\<not> present store_new ''Demo'' (lead_id lead_L1)"
    by (simp add: present_def ids_of_def store_new_def)
  have f: "filter (\<lambda>l. lead_id l \<noteq> lead_id lead_L1) [lead_L1, lead_L2] = [lead_L2]"
    by (simp add: lead_L1_def lead_L2_def)
  show ?thesis
    using a b c d e
      move_then_move_back [of "''New''" "''Demo''" store_new "[lead_L1, lead_L2]" lead_L1]
    unfolding f by simp
qed

section \<open>Failed load\<close>

text \<open>
  C9, as stated, fails in its second half. A load answered with \<^verbatim>\<open>success\<close> false and
  the message \<open>Database unavailable\<close> sets the displayed error to the fixed text
  \<open>Failed to fetch leads\<close>, not to the message of the response.
\<close>

theorem load_failure_message_counterexample:
  "error (snd (fetchLeads initial_state (LoadFail ''Database unavailable''))) = ''Failed to fetch leads''
   \<and> error (snd (fetchLeads initial_state (LoadFail ''Database unavailable''))) \<noteq> ''Database unavailable''"
  by (simp add: fetchLeads_def getAllLeads_def getAllLeads_try_def initial_state_def)

text \<open>
  C9, amended. For every load answered with \<^verbatim>\<open>success\<close> false, the leads and the
  grouped leads stay empty, the displayed error is the fixed text
  \<open>Failed to fetch leads\<close>, and the message of the response is only logged to the
  console: the \<^verbatim>\<open>catch\<close> block of \<^verbatim>\<open>getAllLeads\<close> catches the error carrying it and
  throws a new one.
\<close>

theorem load_failure_keeps_store_empty:
  "fetchLeads initial_state (LoadFail msg) =
     ([ConsoleErrorWith ''Error fetching leads:'' msg],
      \<lparr>leads = [], groupedLeads = Map.empty, error = ''Failed to fetch leads''\<rparr>)"
  by (simp add: fetchLeads_def getAllLeads_def getAllLeads_try_def initial_state_def)

section \<open>Missing target partition\<close>

text \<open>
  C10. The list that an updater appends to is read through \<^verbatim>\<open>|| []\<close>. So when the
  source partition of a drop exists and its destination key is absent, the optimistic
  updater succeeds and the destination partition becomes the list of the moved record
  alone; and when the partition a rollback removes from exists and the key it appends to
  is absent, both rollback updaters succeed and that partition becomes the list of the
  dragged record alone.
\<close>

theorem absent_target_key_total:
  "(prev fromStatus = Some fls \<and> prev toStatus = None \<longrightarrow>
      (\<exists>s1. applyOptimistic prev ld fromStatus toStatus = Inr s1
            \<and> s1 toStatus = Some [ld\<lparr>status := toStatus\<rparr>]))
   \<and> (cur toStatus = Some tls \<and> cur fromStatus = None \<longrightarrow>
      (\<exists>s2. rollbackOnReject cur ld fromStatus toStatus = Inr s2
            \<and> rollbackOnError cur ld fromStatus toStatus = Inr s2
            \<and> s2 fromStatus = Some [ld]))"
  by (auto simp: applyOptimistic_def rollbackOnReject_def rollbackOnError_def orEmpty_def)

text \<open>
  C10 at concrete stores: \<open>L1\<close> dropped on a missing \<open>Demo\<close>, and \<open>L1\<close> rolled back
  into a missing \<open>New\<close>.
\<close>

theorem absent_target_key_total_witness:
  "(store_new ''New'' = Some [lead_L1, lead_L2] \<and> store_new ''Demo'' = None)
   \<and> (\<exists>s1. applyOptimistic store_new lead_L1 ''New'' ''Demo'' = Inr s1
            \<and> s1 ''Demo'' = Some [lead_L1\<lparr>status := ''Demo''\<rparr>])
   \<and> (store_demo_L1 ''Demo'' = Some [lead_L1\<lparr>status := ''Demo''\<rparr>] \<and> store_demo_L1 ''New'' = None)
   \<and> (\<exists>s2. rollbackOnReject store_demo_L1 lead_L1 ''New'' ''Demo'' = Inr s2
            \<and> rollbackOnError store_demo_L1 lead_L1 ''New'' ''Demo'' = Inr s2
            \<and> s2 ''New'' = Some [lead_L1])"
proof -
  have a: "store_new ''New'' = Some [lead_L1, lead_L2] \<and> store_new ''Demo'' = None"
    by (simp add: store_new_def)
  have b: "store_demo_L1 ''Demo'' = Some [lead_L1\<lparr>status := ''Demo''\<rparr>] \<and> store_demo_L1 ''New'' = None"
    by (simp add: store_demo_L1_def)
  show ?thesis
    using a b absent_target_key_total [of store_new "''New''" "[lead_L1, lead_L2]" "''Demo''"
        lead_L1 store_demo_L1 "[lead_L1\<lparr>status := ''Demo''\<rparr>]"]
    by simp
qed

end
